theory Spec2Isabelle
  imports Main "HOL-Library.Char_ord" "HOL-Library.List_Lexorder"
begin

section \<open>Data model of the game handler (gamehandler.cpp)\<close>

text \<open>
  Pointers are modelled by their identity: a \<open>GameClient *\<close> is a connection id and a
  \<open>PlayerPtr\<close> a player id. The null \<open>PlayerPtr\<close> of an unbound client is \<open>None\<close>.
\<close>

type_synonym conn = nat
type_synonym pid = nat

text \<open>
  Modelled from the spec: the protocol constants (message ids and status bytes) are
  declared in a header that is not among the sources. They are an enumeration; every id
  the handler does not name is \<open>MSG_OTHER\<close>.
\<close>

datatype msgid =
    PGMSG_CONNECT | GPMSG_CONNECT_RESPONSE
  | PGMSG_SAY | GPMSG_SAY
  | PGMSG_PICKUP | GPMSG_PICKUP_RESPONSE
  | PGMSG_USE_ITEM | GPMSG_USE_RESPONSE
  | PGMSG_WALK
  | PGMSG_EQUIP | GPMSG_EQUIP_RESPONSE
  | XXMSG_INVALID
  | MSG_OTHER nat

datatype errmsg = ERRMSG_OK | ERRMSG_FAILURE

text \<open>
  A \<open>MessageOut\<close> is the sequence of its writes. The default constructor gives the empty
  message (data size 0); \<open>MessageOut msg(id)\<close> starts with the id.
\<close>

datatype wfield = WShort msgid | WByte errmsg | WString string

type_synonym MessageOut = "wfield list"

record GamePendingLogin =
  character :: pid
  timeout :: int

text \<open>
  A \<open>std::map\<close> with string keys is the list of its entries in iteration order, that is
  in ascending key order with no key twice. \<open>find\<close> is a lookup, \<open>insert\<close> leaves the map
  as it is when the key is present, \<open>erase\<close> of the iterator found for a key removes that
  key's entry.
\<close>

type_synonym 'v std_map = "(string \<times> 'v) list"

definition map_find :: "string \<Rightarrow> 'v std_map \<Rightarrow> 'v option" where
  "map_find k m = map_of m k"

definition map_insert :: "string \<Rightarrow> 'v \<Rightarrow> 'v std_map \<Rightarrow> 'v std_map" where
  "map_insert k v m = (if k \<in> fst ` set m then m else insort_key fst (k, v) m)"

definition map_erase :: "string \<Rightarrow> 'v std_map \<Rightarrow> 'v std_map" where
  "map_erase k m = filter (\<lambda>e. fst e \<noteq> k) m"

text \<open>
  The state the handler works on: the two file-level maps \<open>pendingLogins\<close> and
  \<open>pendingClients\<close>, the handler's list of clients, the character of every client
  (\<open>GameClient::getCharacter\<close>), the player objects behind the player pointers, and the
  messages handed to \<open>send\<close>, in order, each with the client it was sent to.
\<close>

record 'p world =
  pendingLogins :: "GamePendingLogin std_map"
  pendingClients :: "conn std_map"
  clients :: "conn list"
  getCharacter :: "conn \<Rightarrow> pid option"
  players :: "pid \<Rightarrow> 'p"
  sent :: "(conn \<times> MessageOut) list"

text \<open>
  The classes \<open>Player\<close> and \<open>MessageIn\<close> and the function \<open>areAround\<close> are declared in
  headers that are not among the sources, so what the handler calls on them is a
  parameter of the model. A reader of \<open>MessageIn\<close> returns the value read and the message
  with its read position advanced; \<open>readString\<close> takes the optional length.
\<close>

record ('p, 'm) env =
  getName :: "'p \<Rightarrow> string"
  getMapId :: "'p \<Rightarrow> nat"
  getXY :: "'p \<Rightarrow> nat \<times> nat"
  addInventory :: "nat \<Rightarrow> 'p \<Rightarrow> 'p"
  hasItem :: "nat \<Rightarrow> 'p \<Rightarrow> bool"
  setDestination :: "nat \<Rightarrow> nat \<Rightarrow> 'p \<Rightarrow> 'p"
  equip :: "int \<Rightarrow> int \<Rightarrow> 'p \<Rightarrow> bool \<times> 'p"
  areAround :: "nat \<Rightarrow> nat \<Rightarrow> nat \<Rightarrow> nat \<Rightarrow> bool"
  getId :: "'m \<Rightarrow> msgid"
  readString :: "nat option \<Rightarrow> 'm \<Rightarrow> string \<times> 'm"
  readLong :: "'m \<Rightarrow> int \<times> 'm"
  readShort :: "'m \<Rightarrow> int \<times> 'm"
  readByte :: "'m \<Rightarrow> int \<times> 'm"

text \<open>Conversion of a value read to \<open>unsigned\<close> (32 bits).\<close>

definition to_unsigned :: "int \<Rightarrow> nat" where
  "to_unsigned v = nat (v mod 2 ^ 32)"

definition send :: "conn \<Rightarrow> MessageOut \<Rightarrow> 'p world \<Rightarrow> 'p world" where
  "send computer msg s = s\<lparr>sent := sent s @ [(computer, msg)]\<rparr>"

definition connect_response_ok :: MessageOut where
  "connect_response_ok = [WShort GPMSG_CONNECT_RESPONSE, WByte ERRMSG_OK]"

section \<open>The operations\<close>

definition registerGameClient :: "string \<Rightarrow> pid \<Rightarrow> 'p world \<Rightarrow> 'p world" where
  "registerGameClient token ch s =
     (case map_find token (pendingClients s) of
        Some computer \<Rightarrow>
          send computer connect_response_ok
            (s\<lparr>getCharacter := (getCharacter s)(computer \<mapsto> ch),
               pendingClients := map_erase token (pendingClients s)\<rparr>)
      | None \<Rightarrow>
          s\<lparr>pendingLogins :=
              map_insert token \<lparr>character = ch, timeout = 300\<rparr> (pendingLogins s)\<rparr>)"

text \<open>
  The loop of \<open>removeOutdatedPending\<close> over the entries of \<open>pendingLogins\<close>: each timeout
  is decremented, and the entry is erased when the new value is not positive. The
  timeout is a C++ \<open>int\<close>; it starts at 300 and only decreases until the entry is erased,
  so it stays between 1 and 300 (see \<open>invariant\<close> below) and never wraps around.
\<close>

fun sweep :: "GamePendingLogin std_map \<Rightarrow> GamePendingLogin std_map" where
  "sweep [] = []"
| "sweep ((k, p) # rest) =
     (if timeout p - 1 \<le> 0 then sweep rest
      else (k, p\<lparr>timeout := timeout p - 1\<rparr>) # sweep rest)"

definition removeOutdatedPending :: "'p world \<Rightarrow> 'p world" where
  "removeOutdatedPending s = s\<lparr>pendingLogins := sweep (pendingLogins s)\<rparr>"

text \<open>
  The loop of \<open>computerDisconnected\<close>: the first entry of \<open>pendingClients\<close> whose client is
  \<open>computer\<close> is erased, and the loop stops there.
\<close>

fun erase_first :: "conn \<Rightarrow> conn std_map \<Rightarrow> conn std_map" where
  "erase_first computer [] = []"
| "erase_first computer ((k, v) # rest) =
     (if v = computer then rest else (k, v) # erase_first computer rest)"

text \<open>
  \<open>delete computer\<close> ends the life of the client object; a client object created later
  starts with no character, so the deleted client's character is forgotten.
\<close>

definition computerDisconnected :: "conn \<Rightarrow> 'p world \<Rightarrow> 'p world" where
  "computerDisconnected computer s =
     s\<lparr>pendingClients := erase_first computer (pendingClients s),
       getCharacter := (getCharacter s)(computer := None)\<rparr>"

text \<open>
  The loop of \<open>sayAround\<close> over the clients: a client with no character or with a
  character on another map is skipped; the message is sent when \<open>areAround\<close> holds of the
  listener's and the speaker's coordinates.
\<close>

fun sayAround_loop ::
  "('p, 'm) env \<Rightarrow> MessageOut \<Rightarrow> nat \<Rightarrow> nat \<times> nat \<Rightarrow> conn list \<Rightarrow> 'p world \<Rightarrow> 'p world" where
  "sayAround_loop E msg speakerMapId speakerXY [] s = s"
| "sayAround_loop E msg speakerMapId speakerXY (i # rest) s =
     (case getCharacter s i of
        None \<Rightarrow> sayAround_loop E msg speakerMapId speakerXY rest s
      | Some l \<Rightarrow>
          (if getMapId E (players s l) \<noteq> speakerMapId
           then sayAround_loop E msg speakerMapId speakerXY rest s
           else let listenerXY = getXY E (players s l) in
             if areAround E (fst listenerXY) (snd listenerXY) (fst speakerXY) (snd speakerXY)
             then sayAround_loop E msg speakerMapId speakerXY rest (send i msg s)
             else sayAround_loop E msg speakerMapId speakerXY rest s))"

text \<open>
  \<open>sayAround\<close> dereferences the speaker's character; on a client with no character the
  source has no defined result, which is \<open>None\<close> here.
\<close>

definition sayAround :: "('p, 'm) env \<Rightarrow> conn \<Rightarrow> string \<Rightarrow> 'p world \<Rightarrow> 'p world option" where
  "sayAround E computer text s =
     (case getCharacter s computer of
        None \<Rightarrow> None
      | Some beingPtr \<Rightarrow>
          let msg = [WShort GPMSG_SAY, WString (getName E (players s beingPtr)), WString text];
              speakerMapId = getMapId E (players s beingPtr);
              speakerXY = getXY E (players s beingPtr)
          in Some (sayAround_loop E msg speakerMapId speakerXY (clients s) s))"

text \<open>
  The \<open>switch\<close> of \<open>processMessage\<close> for a client with character \<open>ch\<close>: the state after the
  handler and the \<open>result\<close> message it has written. The warning logged for an invalid
  message type is not part of the state.
\<close>

definition dispatch ::
  "('p, 'm) env \<Rightarrow> conn \<Rightarrow> pid \<Rightarrow> 'm \<Rightarrow> 'p world \<Rightarrow> ('p world \<times> MessageOut) option" where
  "dispatch E computer ch message s =
     (case getId E message of
        PGMSG_SAY \<Rightarrow>
          (let say = fst (readString E None message)
           in map_option (\<lambda>s'. (s', [])) (sayAround E computer say s))
      | PGMSG_PICKUP \<Rightarrow>
          (let itemId = to_unsigned (fst (readLong E message))
           in Some (s\<lparr>players := (players s)(ch := addInventory E itemId (players s ch))\<rparr>,
                    [WShort GPMSG_PICKUP_RESPONSE, WByte ERRMSG_OK]))
      | PGMSG_USE_ITEM \<Rightarrow>
          (let itemId = to_unsigned (fst (readLong E message))
           in Some (s, [WShort GPMSG_USE_RESPONSE,
                        WByte (if hasItem E itemId (players s ch) then ERRMSG_OK
                               else ERRMSG_FAILURE)]))
      | PGMSG_WALK \<Rightarrow>
          (let rx = readShort E message;
               x = to_unsigned (fst rx);
               y = to_unsigned (fst (readShort E (snd rx)))
           in Some (s\<lparr>players := (players s)(ch := setDestination E x y (players s ch))\<rparr>, []))
      | PGMSG_EQUIP \<Rightarrow>
          (let ri = readLong E message;
               itemId = fst ri;
               slot = fst (readByte E (snd ri));
               r = equip E itemId slot (players s ch)
           in Some (s\<lparr>players := (players s)(ch := snd r)\<rparr>,
                    [WShort GPMSG_EQUIP_RESPONSE,
                     WByte (if fst r then ERRMSG_OK else ERRMSG_FAILURE)]))
      | _ \<Rightarrow> Some (s, [WShort XXMSG_INVALID]))"

definition processMessage ::
  "('p, 'm) env \<Rightarrow> conn \<Rightarrow> 'm \<Rightarrow> 'p world \<Rightarrow> 'p world option" where
  "processMessage E computer message s =
     (case getCharacter s computer of
        None \<Rightarrow>
          (if getId E message \<noteq> PGMSG_CONNECT then Some s
           else let magic_token = fst (readString E (Some 32) message) in
             (case map_find magic_token (pendingLogins s) of
                None \<Rightarrow>
                  (if computer \<in> snd ` set (pendingClients s) then Some s
                   else Some (s\<lparr>pendingClients :=
                                  map_insert magic_token computer (pendingClients s)\<rparr>))
              | Some i \<Rightarrow>
                  Some (send computer connect_response_ok
                          (s\<lparr>getCharacter := (getCharacter s)(computer \<mapsto> character i),
                             pendingLogins := map_erase magic_token (pendingLogins s)\<rparr>))))
      | Some ch \<Rightarrow>
          (case dispatch E computer ch message s of
             None \<Rightarrow> None
           | Some (s', result) \<Rightarrow>
               Some (if result \<noteq> [] then send computer result s' else s')))"

section \<open>Runs of the handler\<close>

datatype 'm event =
    RegisterGameClient string pid
  | ProcessMessage conn 'm
  | Tick
  | ComputerDisconnected conn

fun step :: "('p, 'm) env \<Rightarrow> 'm event \<Rightarrow> 'p world \<Rightarrow> 'p world option" where
  "step E (RegisterGameClient token ch) s = Some (registerGameClient token ch s)"
| "step E (ProcessMessage computer message) s = processMessage E computer message s"
| "step E Tick s = Some (removeOutdatedPending s)"
| "step E (ComputerDisconnected computer) s = Some (computerDisconnected computer s)"

definition initial :: "'p world \<Rightarrow> bool" where
  "initial s \<longleftrightarrow> pendingLogins s = [] \<and> pendingClients s = [] \<and> (\<forall>c. getCharacter s c = None)"

inductive reachable :: "('p, 'm) env \<Rightarrow> 'p world \<Rightarrow> bool" for E :: "('p, 'm) env" where
  reachable_initial: "initial s \<Longrightarrow> reachable E s"
| reachable_step: "reachable E s \<Longrightarrow> step E e s = Some s' \<Longrightarrow> reachable E s'"

section \<open>Notions used in the statements\<close>

text \<open>
  The delivery condition of the proximity broadcast, in the spec's words: the client is
  bound, its identity is on the speaker's map, and the proximity predicate holds of its
  coordinates against the speaker's.
\<close>

definition hears :: "('p, 'm) env \<Rightarrow> 'p world \<Rightarrow> nat \<Rightarrow> nat \<times> nat \<Rightarrow> conn \<Rightarrow> bool" where
  "hears E s speakerMapId speakerXY c =
     (case getCharacter s c of
        None \<Rightarrow> False
      | Some l \<Rightarrow>
          getMapId E (players s l) = speakerMapId \<and>
          areAround E (fst (getXY E (players s l))) (snd (getXY E (players s l)))
            (fst speakerXY) (snd speakerXY))"

text \<open>
  What holds of the two pending maps in every state the handler reaches: both are in
  ascending key order with no key twice, no client is twice in \<open>pendingClients\<close>, no
  token is in both maps, and every timeout is between 1 and 300.
\<close>

definition invariant :: "'p world \<Rightarrow> bool" where
  "invariant s \<longleftrightarrow>
     sorted (map fst (pendingLogins s)) \<and>
     sorted (map fst (pendingClients s)) \<and>
     distinct (map fst (pendingLogins s)) \<and>
     distinct (map fst (pendingClients s)) \<and>
     distinct (map snd (pendingClients s)) \<and>
     fst ` set (pendingLogins s) \<inter> fst ` set (pendingClients s) = {} \<and>
     (\<forall>e \<in> set (pendingLogins s). 1 \<le> timeout (snd e) \<and> timeout (snd e) \<le> 300)"

text \<open>A run of events from a state; \<open>None\<close> when a step has no defined result.\<close>

fun run :: "('p, 'm) env \<Rightarrow> 'm event list \<Rightarrow> 'p world \<Rightarrow> 'p world option" where
  "run E [] s = Some s"
| "run E (e # es) s = (case step E e s of None \<Rightarrow> None | Some s' \<Rightarrow> run E es s')"

section \<open>A concrete instance\<close>

text \<open>
  An instance of the parameters for evaluating the model: a player is its map id and its
  coordinates, two positions are around each other when they differ by at most one in
  each coordinate, and a message is its id and one string.
\<close>

definition ex_env :: "(nat \<times> nat \<times> nat, msgid \<times> string) env" where
  "ex_env =
     \<lparr>getName = (\<lambda>p. ''player''),
      getMapId = fst,
      getXY = snd,
      addInventory = (\<lambda>item p. p),
      hasItem = (\<lambda>item p. False),
      setDestination = (\<lambda>x y p. p),
      equip = (\<lambda>item slot p. (False, p)),
      areAround = (\<lambda>x1 y1 x2 y2. x1 \<le> x2 + 1 \<and> x2 \<le> x1 + 1 \<and> y1 \<le> y2 + 1 \<and> y2 \<le> y1 + 1),
      getId = fst,
      readString = (\<lambda>n m. (case n of None \<Rightarrow> snd m | Some k \<Rightarrow> take k (snd m), m)),
      readLong = (\<lambda>m. (0, m)),
      readShort = (\<lambda>m. (0, m)),
      readByte = (\<lambda>m. (0, m))\<rparr>"

text \<open>
  Players 10 and 11 stand next to each other on map 1, player 12 is far away on map 1,
  player 13 stands at player 10's position on map 2.
\<close>

definition ex_players :: "pid \<Rightarrow> nat \<times> nat \<times> nat" where
  "ex_players p =
     (if p = 10 then (1, 5, 5) else if p = 11 then (1, 5, 6)
      else if p = 12 then (1, 50, 50) else (2, 5, 5))"

definition ex_world :: "(nat \<times> nat \<times> nat) world" where
  "ex_world =
     \<lparr>pendingLogins = [], pendingClients = [], clients = [1, 2, 3, 4, 5],
      getCharacter = (\<lambda>c. None), players = ex_players, sent = []\<rparr>"

definition ex_bound :: "(nat \<times> nat \<times> nat) world" where
  "ex_bound =
     ex_world\<lparr>getCharacter := [1 \<mapsto> 10, 2 \<mapsto> 11, 3 \<mapsto> 12, 4 \<mapsto> 13]\<rparr>"

definition ex_login :: "(nat \<times> nat \<times> nat) world" where
  "ex_login = registerGameClient ''T1'' 10 ex_world"

definition ex_waiting :: "(nat \<times> nat \<times> nat) world" where
  "ex_waiting = ex_world\<lparr>pendingClients := [(''T4'', 1)]\<rparr>"

definition ex_collision :: "(nat \<times> nat \<times> nat) world" where
  "ex_collision = removeOutdatedPending (registerGameClient ''T3'' 10 ex_world)"

section \<open>Lemmas on the maps\<close>

lemma map_find_None_iff: "map_find k m = None \<longleftrightarrow> k \<notin> fst ` set m"
  by (simp add: map_find_def map_of_eq_None_iff)

lemma map_find_SomeD: "map_find k m = Some v \<Longrightarrow> (k, v) \<in> set m"
  by (simp add: map_find_def map_of_SomeD)

lemma set_map_insert:
  "set (map_insert k v m) = (if k \<in> fst ` set m then set m else insert (k, v) (set m))"
  by (simp add: map_insert_def set_insort_key)

lemma set_map_erase: "set (map_erase k m) = {e \<in> set m. fst e \<noteq> k}"
  by (auto simp: map_erase_def)

lemma distinct_fst_insort:
  "k \<notin> fst ` set m \<Longrightarrow> distinct (map fst m) \<Longrightarrow> distinct (map fst (insort_key fst (k, v) m))"
  by (induction m) (auto simp: set_insort_key)

lemma distinct_snd_insort:
  "v \<notin> snd ` set m \<Longrightarrow> distinct (map snd m) \<Longrightarrow> distinct (map snd (insort_key fst (k, v) m))"
  by (induction m) (auto simp: set_insort_key)

lemma distinct_fst_map_insert:
  "distinct (map fst m) \<Longrightarrow> distinct (map fst (map_insert k v m))"
  by (simp add: map_insert_def distinct_fst_insort)

lemma distinct_snd_map_insert:
  "v \<notin> snd ` set m \<Longrightarrow> distinct (map snd m) \<Longrightarrow> distinct (map snd (map_insert k v m))"
  by (simp add: map_insert_def distinct_snd_insort)

lemma sorted_map_insert:
  "sorted (map fst m) \<Longrightarrow> sorted (map fst (map_insert k v m))"
  by (simp add: map_insert_def sorted_insort_key)

lemma sorted_map_erase:
  "sorted (map fst m) \<Longrightarrow> sorted (map fst (map_erase k m))"
  by (simp add: map_erase_def sorted_filter)

lemma distinct_map_erase:
  "distinct (map f m) \<Longrightarrow> distinct (map f (map_erase k m))"
  by (simp add: map_erase_def distinct_map_filter)

lemma map_of_insort:
  "k \<notin> fst ` set m \<Longrightarrow> map_of (insort_key fst (k, v) m) k' = (if k' = k then Some v else map_of m k')"
  by (induction m) auto

lemma map_find_map_insert:
  "map_find k' (map_insert k v m) =
     (if k' = k \<and> k \<notin> fst ` set m then Some v else map_find k' m)"
  by (auto simp: map_find_def map_insert_def map_of_insort)

lemma map_find_map_erase:
  "map_find k' (map_erase k m) = (if k' = k then None else map_find k' m)"
  unfolding map_find_def map_erase_def by (induction m) auto

lemma set_sweep_subset: "fst ` set (sweep m) \<subseteq> fst ` set m"
  by (induction m rule: sweep.induct) auto

lemma sorted_sweep: "sorted (map fst m) \<Longrightarrow> sorted (map fst (sweep m))"
  using set_sweep_subset by (induction m rule: sweep.induct) fastforce+

lemma distinct_sweep: "distinct (map fst m) \<Longrightarrow> distinct (map fst (sweep m))"
  using set_sweep_subset by (induction m rule: sweep.induct) auto

lemma map_find_sweep:
  "distinct (map fst m) \<Longrightarrow>
   map_find k (sweep m) =
     (case map_find k m of None \<Rightarrow> None
      | Some p \<Rightarrow> if timeout p - 1 \<le> 0 then None else Some (p\<lparr>timeout := timeout p - 1\<rparr>))"
  unfolding map_find_def
  apply (induction m rule: sweep.induct)
  using set_sweep_subset
   apply (auto simp: map_of_eq_None_iff split: option.splits)
  done

lemma timeout_sweep:
  "\<forall>e \<in> set m. 1 \<le> timeout (snd e) \<and> timeout (snd e) \<le> 300 \<Longrightarrow>
   \<forall>e \<in> set (sweep m). 1 \<le> timeout (snd e) \<and> timeout (snd e) \<le> 300"
  by (induction m rule: sweep.induct) auto

lemma set_erase_first_subset: "set (erase_first c m) \<subseteq> set m"
  by (induction m rule: erase_first.induct) auto

lemma sorted_erase_first:
  "sorted (map fst m) \<Longrightarrow> sorted (map fst (erase_first c m))"
  using set_erase_first_subset by (induction m rule: erase_first.induct) fastforce+

lemma distinct_erase_first:
  "distinct (map f m) \<Longrightarrow> distinct (map f (erase_first c m))"
  using set_erase_first_subset by (induction m rule: erase_first.induct) fastforce+

section \<open>The invariant\<close>

lemma hears_sent [simp]: "hears E (s\<lparr>sent := x\<rparr>) mid xy c = hears E s mid xy c"
  by (simp add: hears_def split: option.splits)

lemma sayAround_loop_eq:
  "sayAround_loop E msg mid xy cs s =
     s\<lparr>sent := sent s @ map (\<lambda>c. (c, msg)) (filter (hears E s mid xy) cs)\<rparr>"
proof (induction cs arbitrary: s)
  case Nil
  show ?case by simp
next
  case (Cons i rest)
  show ?case
  proof (cases "hears E s mid xy i")
    case True
    then have "sayAround_loop E msg mid xy (i # rest) s =
        sayAround_loop E msg mid xy rest (send i msg s)"
      by (auto simp: hears_def Let_def split: option.splits)
    with True show ?thesis
      by (simp add: Cons.IH send_def)
  next
    case False
    then have "sayAround_loop E msg mid xy (i # rest) s = sayAround_loop E msg mid xy rest s"
      by (auto simp: hears_def Let_def split: option.splits)
    with False show ?thesis
      by (simp add: Cons.IH)
  qed
qed

lemma dispatch_frame:
  assumes "dispatch E c ch m s = Some (s', r)"
  shows "pendingLogins s' = pendingLogins s \<and> pendingClients s' = pendingClients s \<and>
         getCharacter s' = getCharacter s \<and> clients s' = clients s"
  using assms
  by (auto simp: dispatch_def Let_def sayAround_def sayAround_loop_eq
      split: msgid.splits option.splits)

lemma processMessage_bound_frame:
  assumes "getCharacter s c = Some ch" and "processMessage E c m s = Some s'"
  shows "pendingLogins s' = pendingLogins s \<and> pendingClients s' = pendingClients s \<and>
         getCharacter s' = getCharacter s \<and> clients s' = clients s"
proof -
  from assms obtain s1 r where d: "dispatch E c ch m s = Some (s1, r)"
    and s': "s' = (if r \<noteq> [] then send c r s1 else s1)"
    by (auto simp: processMessage_def split: option.splits)
  from dispatch_frame[OF d] s' show ?thesis
    by (simp add: send_def)
qed

lemma invariant_initial: "initial s \<Longrightarrow> invariant s"
  by (simp add: initial_def invariant_def)

lemma invariant_registerGameClient:
  assumes "invariant s"
  shows "invariant (registerGameClient token ch s)"
proof (cases "map_find token (pendingClients s)")
  case None
  then have "token \<notin> fst ` set (pendingClients s)"
    by (simp add: map_find_None_iff)
  with assms None show ?thesis
    by (auto simp: invariant_def registerGameClient_def distinct_fst_map_insert
        sorted_map_insert set_map_insert split: if_splits)
next
  case (Some computer)
  with assms show ?thesis
    by (auto simp: invariant_def registerGameClient_def send_def distinct_map_erase
        sorted_map_erase set_map_erase)
qed

lemma invariant_removeOutdatedPending:
  assumes "invariant s"
  shows "invariant (removeOutdatedPending s)"
  using assms set_sweep_subset[of "pendingLogins s"] timeout_sweep[of "pendingLogins s"]
  by (auto simp: invariant_def removeOutdatedPending_def distinct_sweep sorted_sweep)

lemma invariant_computerDisconnected:
  assumes "invariant s"
  shows "invariant (computerDisconnected c s)"
  using assms set_erase_first_subset[of c "pendingClients s"]
  by (auto simp: invariant_def computerDisconnected_def distinct_erase_first
      sorted_erase_first)

lemma invariant_processMessage:
  assumes "invariant s" and "processMessage E c m s = Some s'"
  shows "invariant s'"
proof (cases "getCharacter s c")
  case (Some ch)
  from processMessage_bound_frame[OF Some assms(2)] assms(1) show ?thesis
    by (simp add: invariant_def)
next
  case None
  show ?thesis
  proof (cases "getId E m = PGMSG_CONNECT")
    case False
    with None assms show ?thesis by (simp add: processMessage_def)
  next
    case True
    define t where "t = fst (readString E (Some 32) m)"
    show ?thesis
    proof (cases "map_find t (pendingLogins s)")
      case (Some i)
      with None True assms(2) have "s' = send c connect_response_ok
          (s\<lparr>getCharacter := (getCharacter s)(c \<mapsto> character i),
             pendingLogins := map_erase t (pendingLogins s)\<rparr>)"
        by (simp add: processMessage_def t_def Let_def)
      with assms(1) show ?thesis
        by (auto simp: invariant_def send_def distinct_map_erase sorted_map_erase
            set_map_erase)
    next
      case noLogin: None
      then have nl: "t \<notin> fst ` set (pendingLogins s)"
        by (simp add: map_find_None_iff)
      show ?thesis
      proof (cases "c \<in> snd ` set (pendingClients s)")
        case True
        with None \<open>getId E m = PGMSG_CONNECT\<close> noLogin assms show ?thesis
          by (simp add: processMessage_def t_def Let_def)
      next
        case False
        with None \<open>getId E m = PGMSG_CONNECT\<close> noLogin assms(2)
        have "s' = s\<lparr>pendingClients := map_insert t c (pendingClients s)\<rparr>"
          by (simp add: processMessage_def t_def Let_def)
        with assms(1) nl False show ?thesis
          by (auto simp: invariant_def distinct_fst_map_insert distinct_snd_map_insert
              sorted_map_insert set_map_insert split: if_splits)
      qed
    qed
  qed
qed

lemma invariant_step:
  "invariant s \<Longrightarrow> step E e s = Some s' \<Longrightarrow> invariant s'"
  by (cases e)
    (auto simp: invariant_registerGameClient invariant_removeOutdatedPending
      invariant_computerDisconnected invariant_processMessage)

lemma reachable_invariant: "reachable E s \<Longrightarrow> invariant s"
  by (induction rule: reachable.induct) (auto intro: invariant_initial invariant_step)

section \<open>Reachable example states\<close>

lemma run_reachable:
  "reachable E s \<Longrightarrow> run E es s = Some s' \<Longrightarrow> reachable E s'"
  by (induction es arbitrary: s) (auto split: option.splits intro: reachable_step)

lemma ex_world_initial: "initial ex_world"
  by (simp add: initial_def ex_world_def)

lemma ex_login_eq:
  "ex_login = ex_world\<lparr>pendingLogins := [(''T1'', \<lparr>character = 10, timeout = 300\<rparr>)]\<rparr>"
  by (simp add: ex_login_def registerGameClient_def map_find_def map_insert_def ex_world_def)

lemma ex_login_reachable: "reachable ex_env ex_login"
  by (rule reachable_step[OF reachable_initial[OF ex_world_initial],
        where e = "RegisterGameClient ''T1'' 10"]) (simp add: ex_login_def)

lemma ex_waiting_step:
  "processMessage ex_env 1 (PGMSG_CONNECT, ''T4'') ex_world = Some ex_waiting"
  by (simp add: processMessage_def ex_env_def ex_world_def ex_waiting_def map_find_def
      map_insert_def)

lemma ex_waiting_reachable: "reachable ex_env ex_waiting"
  by (rule reachable_step[OF reachable_initial[OF ex_world_initial],
        where e = "ProcessMessage 1 (PGMSG_CONNECT, ''T4'')"])
    (simp only: step.simps ex_waiting_step)

lemma ex_collision_eq:
  "ex_collision = ex_world\<lparr>pendingLogins := [(''T3'', \<lparr>character = 10, timeout = 299\<rparr>)]\<rparr>"
  by (simp add: ex_collision_def registerGameClient_def removeOutdatedPending_def
      map_find_def map_insert_def ex_world_def)

lemma ex_collision_reachable: "reachable ex_env ex_collision"
proof -
  have "run ex_env [RegisterGameClient ''T3'' 10, Tick] ex_world = Some ex_collision"
    by (simp add: ex_collision_def)
  with reachable_initial[OF ex_world_initial] show ?thesis
    by (rule run_reachable)
qed

section \<open>The rendezvous\<close>

text \<open>
  Claim C1 (handoff first). Let \<open>m\<close> be a connect message carrying the token \<open>T\<close>, and
  let the state have no pending login and no pending client for \<open>T\<close> and the client \<open>c\<close>
  unbound. Then \<open>registerGameClient T ch\<close> sends nothing, and processing \<open>m\<close> from \<open>c\<close>
  afterwards returns a state in which \<open>c\<close> has the character \<open>ch\<close>, exactly one message
  has been sent, the connect response with status OK to \<open>c\<close>, and neither map has an
  entry for \<open>T\<close>. Whether \<open>c\<close> has a pending-client entry makes no difference here.
\<close>

theorem handoff_first:
  assumes "getId E m = PGMSG_CONNECT"
    and "fst (readString E (Some 32) m) = T"
    and "map_find T (pendingLogins s) = None"
    and "map_find T (pendingClients s) = None"
    and "getCharacter s c = None"
  shows "sent (registerGameClient T ch s) = sent s \<and>
    (\<exists>s'. processMessage E c m (registerGameClient T ch s) = Some s' \<and>
       getCharacter s' c = Some ch \<and>
       sent s' = sent s @ [(c, [WShort GPMSG_CONNECT_RESPONSE, WByte ERRMSG_OK])] \<and>
       map_find T (pendingLogins s') = None \<and>
       map_find T (pendingClients s') = None)"
proof -
  define s1 where "s1 = registerGameClient T ch s"
  from assms(4) have s1: "s1 = s\<lparr>pendingLogins :=
      map_insert T \<lparr>character = ch, timeout = 300\<rparr> (pendingLogins s)\<rparr>"
    by (simp add: s1_def registerGameClient_def)
  from assms(3) have "T \<notin> fst ` set (pendingLogins s)"
    by (simp add: map_find_None_iff)
  then have f: "map_find T (pendingLogins s1) = Some \<lparr>character = ch, timeout = 300\<rparr>"
    by (simp add: s1 map_find_map_insert)
  have u: "getCharacter s1 c = None"
    using assms(5) by (simp add: s1)
  have "processMessage E c m s1 = Some (send c connect_response_ok
      (s1\<lparr>getCharacter := (getCharacter s1)(c \<mapsto> ch),
          pendingLogins := map_erase T (pendingLogins s1)\<rparr>))"
    using assms(1,2) f u by (simp add: processMessage_def)
  moreover have "sent s1 = sent s" "pendingClients s1 = pendingClients s"
    by (simp_all add: s1)
  ultimately show ?thesis
    using assms(4) unfolding s1_def[symmetric]
    by (simp add: send_def connect_response_ok_def map_find_map_erase)
qed

theorem handoff_first_witness:
  "getId ex_env (PGMSG_CONNECT, ''T1'') = PGMSG_CONNECT \<and>
   fst (readString ex_env (Some 32) (PGMSG_CONNECT, ''T1'')) = ''T1'' \<and>
   map_find ''T1'' (pendingLogins ex_world) = None \<and>
   map_find ''T1'' (pendingClients ex_world) = None \<and>
   getCharacter ex_world 1 = None \<and>
   (\<exists>s'. processMessage ex_env 1 (PGMSG_CONNECT, ''T1'') (registerGameClient ''T1'' 10 ex_world)
            = Some s' \<and>
      getCharacter s' 1 = Some 10 \<and>
      sent s' = [(1, [WShort GPMSG_CONNECT_RESPONSE, WByte ERRMSG_OK])] \<and>
      map_find ''T1'' (pendingLogins s') = None \<and>
      map_find ''T1'' (pendingClients s') = None)"
proof -
  have h1: "getId ex_env (PGMSG_CONNECT, ''T1'') = PGMSG_CONNECT"
    by (simp add: ex_env_def)
  have h2: "fst (readString ex_env (Some 32) (PGMSG_CONNECT, ''T1'')) = ''T1''"
    by (simp add: ex_env_def)
  have h3: "map_find ''T1'' (pendingLogins ex_world) = None"
    by (simp add: ex_world_def map_find_def)
  have h4: "map_find ''T1'' (pendingClients ex_world) = None"
    by (simp add: ex_world_def map_find_def)
  have h5: "getCharacter ex_world 1 = None"
    by (simp add: ex_world_def)
  have s: "sent ex_world = []"
    by (simp add: ex_world_def)
  from handoff_first[OF h1 h2 h3 h4 h5, of 10] h1 h2 h3 h4 h5 show ?thesis
    by (simp add: s)
qed

text \<open>
  Claim C2 (connect first). Let \<open>m\<close> be a connect message carrying the token \<open>T\<close>, and
  let the state have no pending login and no pending client for \<open>T\<close>, no pending-client
  entry for \<open>c\<close>, and \<open>c\<close> unbound. Then processing \<open>m\<close> from \<open>c\<close> sends nothing and
  leaves \<open>c\<close> unbound, and \<open>registerGameClient T ch\<close> afterwards gives \<open>c\<close> the character
  \<open>ch\<close>, sends exactly one message, the connect response with status OK to \<open>c\<close>, and
  leaves no entry for \<open>T\<close> in either map.
\<close>

theorem connect_first:
  assumes "getId E m = PGMSG_CONNECT"
    and "fst (readString E (Some 32) m) = T"
    and "map_find T (pendingLogins s) = None"
    and "map_find T (pendingClients s) = None"
    and "c \<notin> snd ` set (pendingClients s)"
    and "getCharacter s c = None"
  shows "\<exists>s1. processMessage E c m s = Some s1 \<and> sent s1 = sent s \<and>
       getCharacter s1 c = None \<and>
       getCharacter (registerGameClient T ch s1) c = Some ch \<and>
       sent (registerGameClient T ch s1) =
         sent s @ [(c, [WShort GPMSG_CONNECT_RESPONSE, WByte ERRMSG_OK])] \<and>
       map_find T (pendingClients (registerGameClient T ch s1)) = None \<and>
       map_find T (pendingLogins (registerGameClient T ch s1)) = None"
proof -
  define s1 where "s1 = s\<lparr>pendingClients := map_insert T c (pendingClients s)\<rparr>"
  have p: "processMessage E c m s = Some s1"
    using assms(1,2,3,5,6) by (simp add: processMessage_def s1_def)
  from assms(4) have "T \<notin> fst ` set (pendingClients s)"
    by (simp add: map_find_None_iff)
  then have f: "map_find T (pendingClients s1) = Some c"
    by (simp add: s1_def map_find_map_insert)
  then have r: "registerGameClient T ch s1 = send c connect_response_ok
      (s1\<lparr>getCharacter := (getCharacter s1)(c \<mapsto> ch),
          pendingClients := map_erase T (pendingClients s1)\<rparr>)"
    by (simp add: registerGameClient_def)
  have "sent s1 = sent s" "getCharacter s1 c = None" "pendingLogins s1 = pendingLogins s"
    using assms(6) by (simp_all add: s1_def)
  with p assms(3) show ?thesis
    by (simp add: r send_def connect_response_ok_def map_find_map_erase)
qed

theorem connect_first_witness:
  "getId ex_env (PGMSG_CONNECT, ''T2'') = PGMSG_CONNECT \<and>
   fst (readString ex_env (Some 32) (PGMSG_CONNECT, ''T2'')) = ''T2'' \<and>
   map_find ''T2'' (pendingLogins ex_login) = None \<and>
   map_find ''T2'' (pendingClients ex_login) = None \<and>
   1 \<notin> snd ` set (pendingClients ex_login) \<and>
   getCharacter ex_login 1 = None \<and>
   (\<exists>s1. processMessage ex_env 1 (PGMSG_CONNECT, ''T2'') ex_login = Some s1 \<and>
      sent s1 = [] \<and>
      getCharacter s1 1 = None \<and>
      getCharacter (registerGameClient ''T2'' 11 s1) 1 = Some 11 \<and>
      sent (registerGameClient ''T2'' 11 s1) =
        [(1, [WShort GPMSG_CONNECT_RESPONSE, WByte ERRMSG_OK])] \<and>
      map_find ''T2'' (pendingClients (registerGameClient ''T2'' 11 s1)) = None \<and>
      map_find ''T2'' (pendingLogins (registerGameClient ''T2'' 11 s1)) = None)"
proof -
  have h1: "getId ex_env (PGMSG_CONNECT, ''T2'') = PGMSG_CONNECT"
    by (simp add: ex_env_def)
  have h2: "fst (readString ex_env (Some 32) (PGMSG_CONNECT, ''T2'')) = ''T2''"
    by (simp add: ex_env_def)
  have h3: "map_find ''T2'' (pendingLogins ex_login) = None"
    by (simp add: ex_login_eq map_find_def)
  have h4: "map_find ''T2'' (pendingClients ex_login) = None"
    by (simp add: ex_login_eq ex_world_def map_find_def)
  have h5: "1 \<notin> snd ` set (pendingClients ex_login)"
    by (simp add: ex_login_eq ex_world_def)
  have h6: "getCharacter ex_login 1 = None"
    by (simp add: ex_login_eq ex_world_def)
  have s: "sent ex_login = []"
    by (simp add: ex_login_eq ex_world_def)
  from connect_first[OF h1 h2 h3 h4 h5 h6, of 11] h1 h2 h3 h4 h5 h6 show ?thesis
    by (simp add: s)
qed

text \<open>
  Claim C3 (exclusivity). In every state reached from an initial state by
  \<open>registerGameClient\<close>, \<open>processMessage\<close>, \<open>removeOutdatedPending\<close> and
  \<open>computerDisconnected\<close>, no token has both a pending login and a pending client.
\<close>

theorem exclusivity:
  assumes "reachable E s"
  shows "\<not> (map_find T (pendingLogins s) \<noteq> None \<and> map_find T (pendingClients s) \<noteq> None)"
proof -
  from reachable_invariant[OF assms]
  have "fst ` set (pendingLogins s) \<inter> fst ` set (pendingClients s) = {}"
    by (simp add: invariant_def)
  then show ?thesis
    by (auto simp: map_find_None_iff)
qed

theorem exclusivity_witness:
  "reachable ex_env ex_login \<and>
   map_find ''T1'' (pendingLogins ex_login) \<noteq> None \<and>
   map_find ''T1'' (pendingClients ex_login) = None"
proof -
  have "map_find ''T1'' (pendingLogins ex_login) \<noteq> None"
    by (simp add: ex_login_eq map_find_def)
  with exclusivity[OF ex_login_reachable, of "''T1''"] ex_login_reachable show ?thesis
    by simp
qed

text \<open>
  Claim C4 (bound is terminal) fails on the code. Client 1 sends a connect message with
  token T1, which no login matches, so it becomes a pending client. The token T2 is
  registered for player 10 and client 1 sends a connect message with T2: it is bound to
  player 10, and its pending-client entry under T1 stays. When T1 is then registered
  for player 11, \<open>registerGameClient\<close> finds that entry, gives client 1 the character 11
  and sends it a second connect response.
\<close>

theorem bound_client_rebound:
  "\<exists>s3 s4.
     run ex_env [ProcessMessage 1 (PGMSG_CONNECT, ''T1''), RegisterGameClient ''T2'' 10,
                 ProcessMessage 1 (PGMSG_CONNECT, ''T2'')] ex_world = Some s3 \<and>
     getCharacter s3 1 = Some 10 \<and>
     map_find ''T1'' (pendingClients s3) = Some 1 \<and>
     step ex_env (RegisterGameClient ''T1'' 11) s3 = Some s4 \<and>
     getCharacter s4 1 = Some 11 \<and>
     sent s4 = [(1, [WShort GPMSG_CONNECT_RESPONSE, WByte ERRMSG_OK]),
                (1, [WShort GPMSG_CONNECT_RESPONSE, WByte ERRMSG_OK])]"
  by (simp add: processMessage_def registerGameClient_def ex_env_def ex_world_def
      map_find_def map_insert_def map_erase_def send_def connect_response_ok_def)

section \<open>Expiry\<close>

lemma funpow_removeOutdatedPending:
  "(removeOutdatedPending ^^ n) s = s\<lparr>pendingLogins := (sweep ^^ n) (pendingLogins s)\<rparr>"
  by (induction n) (simp_all add: removeOutdatedPending_def)

lemma distinct_funpow_sweep:
  "distinct (map fst m) \<Longrightarrow> distinct (map fst ((sweep ^^ n) m))"
  by (induction n) (simp_all add: distinct_sweep)

lemma map_find_funpow_sweep:
  assumes "distinct (map fst m)" and "map_find T m = Some p" and "1 \<le> timeout p"
  shows "map_find T ((sweep ^^ n) m) =
    (if int n < timeout p then Some (p\<lparr>timeout := timeout p - int n\<rparr>) else None)"
proof (induction n)
  case 0
  from assms show ?case by simp
next
  case (Suc n)
  have "map_find T ((sweep ^^ Suc n) m) = map_find T (sweep ((sweep ^^ n) m))"
    by simp
  also have "\<dots> = (case map_find T ((sweep ^^ n) m) of None \<Rightarrow> None
      | Some q \<Rightarrow> if timeout q - 1 \<le> 0 then None else Some (q\<lparr>timeout := timeout q - 1\<rparr>))"
    by (rule map_find_sweep[OF distinct_funpow_sweep[OF assms(1)]])
  also have "\<dots> = (if int (Suc n) < timeout p
      then Some (p\<lparr>timeout := timeout p - int (Suc n)\<rparr>) else None)"
    by (simp add: Suc.IH algebra_simps)
  finally show ?case .
qed

text \<open>
  Claim C5 (expiry timing) fails as stated: \<open>registerGameClient\<close> with no pending client
  for the token does not store a login with timeout 300 when a login for the token is
  already pending, because \<open>insert\<close> leaves an existing entry alone. Here the login for
  T3 was registered for player 10 one tick ago. Registering T3 again, for player 11,
  leaves the old login with its timeout 299 in place, and 299 ticks later it is gone.
\<close>

theorem expiry_timing_counterexample:
  "map_find ''T3'' (pendingClients ex_collision) = None \<and>
   map_find ''T3'' (pendingLogins (registerGameClient ''T3'' 11 ex_collision))
     = Some \<lparr>character = 10, timeout = 299\<rparr> \<and>
   map_find ''T3'' (pendingLogins
       ((removeOutdatedPending ^^ 299) (registerGameClient ''T3'' 11 ex_collision))) = None"
proof -
  have r: "registerGameClient ''T3'' 11 ex_collision = ex_collision"
    by (simp add: ex_collision_eq registerGameClient_def map_find_def map_insert_def
        ex_world_def)
  have f: "map_find ''T3'' (pendingLogins ex_collision) = Some \<lparr>character = 10, timeout = 299\<rparr>"
    by (simp add: ex_collision_eq map_find_def)
  have d: "distinct (map fst (pendingLogins ex_collision))"
    by (simp add: ex_collision_eq)
  have "map_find ''T3'' ((sweep ^^ 299) (pendingLogins ex_collision)) = None"
    using map_find_funpow_sweep[OF d f, of 299] by simp
  moreover have "map_find ''T3'' (pendingClients ex_collision) = None"
    by (simp add: ex_collision_eq ex_world_def map_find_def)
  ultimately show ?thesis
    using f by (simp add: r funpow_removeOutdatedPending)
qed

text \<open>
  Claim C5, amended. In a reachable state with no pending client and no pending login
  for the token \<open>T\<close>, \<open>registerGameClient T ch\<close> stores a login for \<open>T\<close> with timeout 300.
  In a reachable state a tick decrements the timeout of every pending login by exactly
  one, erases exactly the logins whose timeout was 1 (and so reaches zero) and changes
  nothing else. Hence after \<open>n < 300\<close> ticks the login is still pending, with timeout
  \<open>300 - n\<close>, and after 300 ticks it is gone. No number of ticks sends a message.
\<close>

theorem expiry_timing:
  assumes "reachable E s"
    and "map_find T (pendingClients s) = None"
    and "map_find T (pendingLogins s) = None"
  shows "map_find T (pendingLogins (registerGameClient T ch s))
           = Some \<lparr>character = ch, timeout = 300\<rparr> \<and>
    (\<forall>k. map_find k (pendingLogins (removeOutdatedPending s)) =
       (case map_find k (pendingLogins s) of
          None \<Rightarrow> None
        | Some p \<Rightarrow> if timeout p = 1 then None else Some (p\<lparr>timeout := timeout p - 1\<rparr>))) \<and>
    removeOutdatedPending s = s\<lparr>pendingLogins := pendingLogins (removeOutdatedPending s)\<rparr> \<and>
    (\<forall>n. map_find T (pendingLogins ((removeOutdatedPending ^^ n) (registerGameClient T ch s))) =
       (if n < 300 then Some \<lparr>character = ch, timeout = 300 - int n\<rparr> else None)) \<and>
    (\<forall>n. sent ((removeOutdatedPending ^^ n) (registerGameClient T ch s)) = sent s)"
proof -
  from reachable_invariant[OF assms(1)]
  have d: "distinct (map fst (pendingLogins s))"
    and t: "\<forall>e \<in> set (pendingLogins s). 1 \<le> timeout (snd e)"
    by (auto simp: invariant_def)
  define s1 where "s1 = registerGameClient T ch s"
  from assms(2) have s1: "s1 = s\<lparr>pendingLogins :=
      map_insert T \<lparr>character = ch, timeout = 300\<rparr> (pendingLogins s)\<rparr>"
    by (simp add: s1_def registerGameClient_def)
  from assms(3) have "T \<notin> fst ` set (pendingLogins s)"
    by (simp add: map_find_None_iff)
  then have f: "map_find T (pendingLogins s1) = Some \<lparr>character = ch, timeout = 300\<rparr>"
    by (simp add: s1 map_find_map_insert)
  have d1: "distinct (map fst (pendingLogins s1))"
    using d by (simp add: s1 distinct_fst_map_insert)
  have tick: "map_find k (pendingLogins (removeOutdatedPending s)) =
       (case map_find k (pendingLogins s) of
          None \<Rightarrow> None
        | Some p \<Rightarrow> if timeout p = 1 then None else Some (p\<lparr>timeout := timeout p - 1\<rparr>))" for k
  proof (cases "map_find k (pendingLogins s)")
    case None
    then show ?thesis
      by (simp add: removeOutdatedPending_def map_find_sweep[OF d])
  next
    case (Some p)
    then have "(k, p) \<in> set (pendingLogins s)"
      by (rule map_find_SomeD)
    with t have "1 \<le> timeout p"
      by force
    with Some show ?thesis
      by (simp add: removeOutdatedPending_def map_find_sweep[OF d])
  qed
  have frame: "removeOutdatedPending s = s\<lparr>pendingLogins := pendingLogins (removeOutdatedPending s)\<rparr>"
    by (simp add: removeOutdatedPending_def)
  have ticks: "map_find T (pendingLogins ((removeOutdatedPending ^^ n) s1)) =
       (if n < 300 then Some \<lparr>character = ch, timeout = 300 - int n\<rparr> else None)" for n
    using map_find_funpow_sweep[OF d1 f, of n] by (simp add: funpow_removeOutdatedPending)
  have silent: "sent ((removeOutdatedPending ^^ n) s1) = sent s" for n
    by (simp add: funpow_removeOutdatedPending s1)
  from f tick frame ticks silent show ?thesis
    unfolding s1_def by blast
qed

theorem expiry_timing_witness:
  "reachable ex_env ex_world \<and>
   map_find ''T3'' (pendingClients ex_world) = None \<and>
   map_find ''T3'' (pendingLogins ex_world) = None \<and>
   map_find ''T3'' (pendingLogins (registerGameClient ''T3'' 12 ex_world))
     = Some \<lparr>character = 12, timeout = 300\<rparr> \<and>
   map_find ''T3'' (pendingLogins
       ((removeOutdatedPending ^^ 299) (registerGameClient ''T3'' 12 ex_world)))
     = Some \<lparr>character = 12, timeout = 1\<rparr> \<and>
   map_find ''T3'' (pendingLogins
       ((removeOutdatedPending ^^ 300) (registerGameClient ''T3'' 12 ex_world))) = None \<and>
   sent ((removeOutdatedPending ^^ 300) (registerGameClient ''T3'' 12 ex_world)) = []"
proof -
  have h1: "reachable ex_env ex_world"
    by (rule reachable_initial[OF ex_world_initial])
  have h2: "map_find ''T3'' (pendingClients ex_world) = None"
    by (simp add: ex_world_def map_find_def)
  have h3: "map_find ''T3'' (pendingLogins ex_world) = None"
    by (simp add: ex_world_def map_find_def)
  have s: "sent ex_world = []"
    by (simp add: ex_world_def)
  note e = expiry_timing[OF h1 h2 h3, of 12]
  from e have a: "map_find ''T3'' (pendingLogins (registerGameClient ''T3'' 12 ex_world))
     = Some \<lparr>character = 12, timeout = 300\<rparr>"
    by blast
  from e have n: "map_find ''T3'' (pendingLogins
       ((removeOutdatedPending ^^ n) (registerGameClient ''T3'' 12 ex_world))) =
       (if n < 300 then Some \<lparr>character = 12, timeout = 300 - int n\<rparr> else None)" for n
    by blast
  from e have q: "sent ((removeOutdatedPending ^^ 300) (registerGameClient ''T3'' 12 ex_world))
      = sent ex_world"
    by blast
  from h1 h2 h3 a n[of 299] n[of 300] q s show ?thesis
    by simp
qed

text \<open>
  Claim C10 (token collision). In a reachable state in which a login for the token \<open>T\<close> is
  pending, \<open>registerGameClient T ch2\<close> returns the state unchanged: the pending login
  keeps its character and its timeout, \<open>ch2\<close> is dropped and nothing is sent.
\<close>

theorem token_collision_noop:
  assumes "reachable E s" and "map_find T (pendingLogins s) = Some p"
  shows "registerGameClient T ch2 s = s"
proof -
  from assms(2) have l: "T \<in> fst ` set (pendingLogins s)"
    using map_find_None_iff[of T "pendingLogins s"] by simp
  from reachable_invariant[OF assms(1)]
  have "fst ` set (pendingLogins s) \<inter> fst ` set (pendingClients s) = {}"
    by (simp add: invariant_def)
  with l have "T \<notin> fst ` set (pendingClients s)"
    by blast
  then have "map_find T (pendingClients s) = None"
    by (simp add: map_find_None_iff)
  with l show ?thesis
    by (simp add: registerGameClient_def map_insert_def)
qed

theorem token_collision_noop_witness:
  "reachable ex_env ex_login \<and>
   map_find ''T1'' (pendingLogins ex_login) = Some \<lparr>character = 10, timeout = 300\<rparr> \<and>
   registerGameClient ''T1'' 11 ex_login = ex_login"
proof -
  have h: "map_find ''T1'' (pendingLogins ex_login) = Some \<lparr>character = 10, timeout = 300\<rparr>"
    by (simp add: ex_login_eq map_find_def)
  from token_collision_noop[OF ex_login_reachable h, of 11] ex_login_reachable h
  show ?thesis by simp
qed

section \<open>Pending clients\<close>

lemma at_most_one_entry:
  "distinct (map snd m) \<Longrightarrow> length (filter (\<lambda>e. snd e = c) m) \<le> 1"
  by (induction m) (auto simp: image_iff filter_empty_conv)

lemma erase_first_set:
  "distinct (map snd m) \<Longrightarrow> set (erase_first c m) = {e \<in> set m. snd e \<noteq> c}"
  by (induction m rule: erase_first.induct) (auto simp: image_iff)

text \<open>
  Claim C6 (connection dedup). In every reachable state at most one entry of
  \<open>pendingClients\<close> refers to a given client. And when an unbound client that has a
  pending-client entry sends a connect message whose token matches no pending login,
  the state stays as it is: no entry is added and nothing is sent.
\<close>

theorem connection_dedup:
  assumes "reachable E s"
  shows "length (filter (\<lambda>e. snd e = c) (pendingClients s)) \<le> 1 \<and>
    (getCharacter s c = None \<longrightarrow> c \<in> snd ` set (pendingClients s) \<longrightarrow>
     getId E m = PGMSG_CONNECT \<longrightarrow>
     map_find (fst (readString E (Some 32) m)) (pendingLogins s) = None \<longrightarrow>
     processMessage E c m s = Some s)"
proof -
  from reachable_invariant[OF assms] have "distinct (map snd (pendingClients s))"
    by (simp add: invariant_def)
  then have "length (filter (\<lambda>e. snd e = c) (pendingClients s)) \<le> 1"
    by (rule at_most_one_entry)
  then show ?thesis
    by (simp add: processMessage_def)
qed

theorem connection_dedup_witness:
  "reachable ex_env ex_waiting \<and>
   getCharacter ex_waiting 1 = None \<and> 1 \<in> snd ` set (pendingClients ex_waiting) \<and>
   getId ex_env (PGMSG_CONNECT, ''T5'') = PGMSG_CONNECT \<and>
   map_find (fst (readString ex_env (Some 32) (PGMSG_CONNECT, ''T5''))) (pendingLogins ex_waiting)
     = None \<and>
   length (filter (\<lambda>e. snd e = 1) (pendingClients ex_waiting)) \<le> 1 \<and>
   processMessage ex_env 1 (PGMSG_CONNECT, ''T5'') ex_waiting = Some ex_waiting"
proof -
  have h1: "getCharacter ex_waiting 1 = None"
    by (simp add: ex_waiting_def ex_world_def)
  have h2: "1 \<in> snd ` set (pendingClients ex_waiting)"
    by (simp add: ex_waiting_def)
  have h3: "getId ex_env (PGMSG_CONNECT, ''T5'') = PGMSG_CONNECT"
    by (simp add: ex_env_def)
  have h4: "map_find (fst (readString ex_env (Some 32) (PGMSG_CONNECT, ''T5'')))
      (pendingLogins ex_waiting) = None"
    by (simp add: ex_waiting_def ex_world_def map_find_def)
  from connection_dedup[OF ex_waiting_reachable, of 1 "(PGMSG_CONNECT, ''T5'')"]
    ex_waiting_reachable h1 h2 h3 h4
  show ?thesis by blast
qed

text \<open>
  Claim C7 (disconnect cleanup). In every reachable state \<open>computerDisconnected c\<close>
  erases the entries of \<open>pendingClients\<close> that refer to \<open>c\<close> and no other entry, so that
  afterwards no token has \<open>c\<close> as its pending client.
\<close>

theorem disconnect_cleanup:
  assumes "reachable E s"
  shows "set (pendingClients (computerDisconnected c s))
           = {e \<in> set (pendingClients s). snd e \<noteq> c} \<and>
         (\<forall>t. map_find t (pendingClients (computerDisconnected c s)) \<noteq> Some c)"
proof -
  from reachable_invariant[OF assms] have d: "distinct (map snd (pendingClients s))"
    by (simp add: invariant_def)
  have e: "set (pendingClients (computerDisconnected c s))
      = {e \<in> set (pendingClients s). snd e \<noteq> c}"
    by (simp add: computerDisconnected_def erase_first_set[OF d])
  have "map_find t (pendingClients (computerDisconnected c s)) \<noteq> Some c" for t
  proof
    assume "map_find t (pendingClients (computerDisconnected c s)) = Some c"
    then have "(t, c) \<in> set (pendingClients (computerDisconnected c s))"
      by (rule map_find_SomeD)
    with e show False by simp
  qed
  with e show ?thesis by blast
qed

theorem disconnect_cleanup_witness:
  "reachable ex_env ex_waiting \<and>
   map_find ''T4'' (pendingClients ex_waiting) = Some 1 \<and>
   set (pendingClients (computerDisconnected 1 ex_waiting))
     = {e \<in> set (pendingClients ex_waiting). snd e \<noteq> 1} \<and>
   map_find ''T4'' (pendingClients (computerDisconnected 1 ex_waiting)) \<noteq> Some 1"
proof -
  have "map_find ''T4'' (pendingClients ex_waiting) = Some 1"
    by (simp add: ex_waiting_def map_find_def)
  with disconnect_cleanup[OF ex_waiting_reachable, of 1] ex_waiting_reachable
  show ?thesis by blast
qed

section \<open>Unbound clients\<close>

text \<open>
  Claim C9 (unauthenticated silence). For an unbound client, processing a message whose
  id is not the connect id returns the state unchanged, so nothing is sent; and
  processing a connect message whose token matches no pending login sends nothing
  either and binds nobody.
\<close>

theorem unauthenticated_silence:
  assumes "getCharacter s c = None"
  shows "(getId E m \<noteq> PGMSG_CONNECT \<longrightarrow> processMessage E c m s = Some s) \<and>
    (getId E m = PGMSG_CONNECT \<longrightarrow>
     map_find (fst (readString E (Some 32) m)) (pendingLogins s) = None \<longrightarrow>
     (\<exists>s'. processMessage E c m s = Some s' \<and> sent s' = sent s \<and>
        getCharacter s' = getCharacter s \<and> pendingLogins s' = pendingLogins s))"
  using assms by (simp add: processMessage_def)

theorem unauthenticated_silence_witness:
  "getCharacter ex_world 1 = None \<and>
   getId ex_env (PGMSG_SAY, ''hello'') \<noteq> PGMSG_CONNECT \<and>
   processMessage ex_env 1 (PGMSG_SAY, ''hello'') ex_world = Some ex_world \<and>
   getId ex_env (PGMSG_CONNECT, ''T9'') = PGMSG_CONNECT \<and>
   map_find (fst (readString ex_env (Some 32) (PGMSG_CONNECT, ''T9''))) (pendingLogins ex_world)
     = None \<and>
   (\<exists>s'. processMessage ex_env 1 (PGMSG_CONNECT, ''T9'') ex_world = Some s' \<and>
      sent s' = sent ex_world \<and> getCharacter s' = getCharacter ex_world \<and>
      pendingLogins s' = pendingLogins ex_world)"
proof -
  have h: "getCharacter ex_world 1 = None"
    by (simp add: ex_world_def)
  have a: "getId ex_env (PGMSG_SAY, ''hello'') \<noteq> PGMSG_CONNECT"
    by (simp add: ex_env_def)
  have b: "getId ex_env (PGMSG_CONNECT, ''T9'') = PGMSG_CONNECT"
    by (simp add: ex_env_def)
  have n: "map_find (fst (readString ex_env (Some 32) (PGMSG_CONNECT, ''T9'')))
      (pendingLogins ex_world) = None"
    by (simp add: ex_world_def map_find_def)
  from unauthenticated_silence[OF h, of ex_env "(PGMSG_SAY, ''hello'')"]
    unauthenticated_silence[OF h, of ex_env "(PGMSG_CONNECT, ''T9'')"] h a b n
  show ?thesis by blast
qed

section \<open>The proximity broadcast\<close>

lemma count_list_deliveries:
  "distinct xs \<Longrightarrow>
   count_list (map (\<lambda>c. (c, msg)) (filter P xs)) (c, msg) = (if c \<in> set xs \<and> P c then 1 else 0)"
  by (induction xs) auto

text \<open>
  Claim C8 (proximity broadcast). Let the speaking client have the character \<open>sp\<close> and
  let no client be twice in the list of clients. Then \<open>sayAround\<close> returns, and all it
  changes is that it sends the say message, with the speaker's name and the text, to
  the clients that are bound to an identity on the speaker's map whose coordinates
  satisfy \<open>areAround\<close> against the speaker's, in the order of the list: each of them gets
  the message exactly once, and no other client gets anything. In particular an unbound
  client and a client whose identity is on another map get nothing.
\<close>

theorem sayAround_delivery:
  assumes "getCharacter s computer = Some sp" and "distinct (clients s)"
  shows "\<exists>out. sayAround E computer text s = Some (s\<lparr>sent := sent s @ out\<rparr>) \<and>
    out = map (\<lambda>c. (c, [WShort GPMSG_SAY, WString (getName E (players s sp)), WString text]))
            (filter (hears E s (getMapId E (players s sp)) (getXY E (players s sp))) (clients s)) \<and>
    (\<forall>c. count_list out
            (c, [WShort GPMSG_SAY, WString (getName E (players s sp)), WString text]) =
          (if c \<in> set (clients s) \<and>
              hears E s (getMapId E (players s sp)) (getXY E (players s sp)) c
           then 1 else 0)) \<and>
    (\<forall>c. getCharacter s c = None \<longrightarrow> c \<notin> fst ` set out) \<and>
    (\<forall>c l. getCharacter s c = Some l \<longrightarrow>
       getMapId E (players s l) \<noteq> getMapId E (players s sp) \<longrightarrow> c \<notin> fst ` set out)"
proof -
  define msg where "msg = [WShort GPMSG_SAY, WString (getName E (players s sp)), WString text]"
  define P where "P = hears E s (getMapId E (players s sp)) (getXY E (players s sp))"
  define out where "out = map (\<lambda>c. (c, msg)) (filter P (clients s))"
  have r: "sayAround E computer text s = Some (s\<lparr>sent := sent s @ out\<rparr>)"
    using assms(1) by (simp add: sayAround_def sayAround_loop_eq out_def msg_def P_def)
  have c: "count_list out (c, msg) = (if c \<in> set (clients s) \<and> P c then 1 else 0)" for c
    unfolding out_def by (rule count_list_deliveries[OF assms(2)])
  have f: "fst ` set out = {c \<in> set (clients s). P c}"
    by (force simp: out_def)
  have u: "getCharacter s c = None \<Longrightarrow> c \<notin> fst ` set out" for c
    unfolding f by (simp add: P_def hears_def)
  have o: "getCharacter s c = Some l \<Longrightarrow>
      getMapId E (players s l) \<noteq> getMapId E (players s sp) \<Longrightarrow> c \<notin> fst ` set out" for c l
    unfolding f by (simp add: P_def hears_def)
  from r c u o show ?thesis
    unfolding out_def msg_def P_def by blast
qed

theorem sayAround_delivery_witness:
  "getCharacter ex_bound 1 = Some 10 \<and> distinct (clients ex_bound) \<and>
   sayAround ex_env 1 ''hi'' ex_bound =
     Some (ex_bound\<lparr>sent :=
       [(1, [WShort GPMSG_SAY, WString ''player'', WString ''hi'']),
        (2, [WShort GPMSG_SAY, WString ''player'', WString ''hi''])]\<rparr>)"
proof -
  have h1: "getCharacter ex_bound 1 = Some 10"
    by (simp add: ex_bound_def)
  have h2: "distinct (clients ex_bound)"
    by (simp add: ex_bound_def ex_world_def)
  from sayAround_delivery[OF h1 h2, of ex_env "''hi''"]
  obtain out where r: "sayAround ex_env 1 ''hi'' ex_bound = Some (ex_bound\<lparr>sent := sent ex_bound @ out\<rparr>)"
    and o: "out = map (\<lambda>c. (c, [WShort GPMSG_SAY, WString (getName ex_env (players ex_bound 10)),
                WString ''hi'']))
            (filter (hears ex_env ex_bound (getMapId ex_env (players ex_bound 10))
               (getXY ex_env (players ex_bound 10))) (clients ex_bound))"
    by blast
  have "out = [(1, [WShort GPMSG_SAY, WString ''player'', WString ''hi'']),
        (2, [WShort GPMSG_SAY, WString ''player'', WString ''hi''])]"
    unfolding o by (simp add: hears_def ex_bound_def ex_world_def ex_env_def ex_players_def)
  with r h1 h2 show ?thesis
    by (simp add: ex_bound_def ex_world_def)
qed

end
